theory Spec2Isabelle
  imports Complex_Main "HOL-Library.Word"
begin

unbundle bit_operations_syntax

section \<open>The platform: JavaScript numbers and Node buffers\<close>

text \<open>
  The packetizer (\<^verbatim>\<open>BaseMediaPacketizer\<close>) keeps its counters in JavaScript numbers and
  builds packets in Node \<^verbatim>\<open>Buffer\<close>s. The numbers passed in (ssrc, byte counts, timestamp
  increments, the wall clock of \<^verbatim>\<open>Date.now()\<close>) are taken to be integers; then every counter
  of the class holds an integer below \<open>2^53\<close>, where double arithmetic is exact, so a number
  is an \<open>int\<close> here. The one number that can be \<^verbatim>\<open>undefined\<close> (the last-send wall clock,
  never set by the constructor) is an \<open>int option\<close>, and arithmetic on \<^verbatim>\<open>undefined\<close> gives
  NaN, again \<open>None\<close>. A buffer is a list of bytes.
\<close>

type_synonym byte = "8 word"
type_synonym buffer = "byte list"

datatype error =
    ERR_OUT_OF_RANGE            \<comment> \<open>Node's RangeError of the buffer writers\<close>
  | SodiumTypeError string      \<comment> \<open>libsodium-wrappers: invalid nonce or key length\<close>
  | UnknownCodec string         \<comment> \<open>\<^verbatim>\<open>Error(`Unknown codec: ${codec}`)\<close>\<close>
  | CodecNotSupported           \<comment> \<open>\<^verbatim>\<open>Error("Codec not supported")\<close>\<close>

definition max_int16bit :: int where
  "max_int16bit = 2 ^ 16"

definition max_int32bit :: int where
  "max_int32bit = 2 ^ 32"

text \<open>\<^verbatim>\<open>new Date("Jan 01 1900 GMT").getTime()\<close>: milliseconds from 1970 back to 1900.\<close>

definition ntpEpoch :: int where
  "ntpEpoch = - 2208988800000"

text \<open>JavaScript's \<^verbatim>\<open>%\<close> is the remainder of the truncating division: its sign is the dividend's.\<close>

definition js_rem :: "int \<Rightarrow> int \<Rightarrow> int" where
  "js_rem a b = sgn a * (\<bar>a\<bar> mod \<bar>b\<bar>)"

text \<open>\<^verbatim>\<open>Math.round\<close> rounds half up: \<open>floor (x + 1/2)\<close>.\<close>

definition Math_round :: "rat \<Rightarrow> int" where
  "Math_round x = \<lfloor>x + 1 / 2\<rfloor>"

definition Buffer_alloc :: "nat \<Rightarrow> buffer" where
  "Buffer_alloc n = replicate n 0"

text \<open>
  \<^verbatim>\<open>Buffer.allocUnsafe\<close> returns uninitialised memory. Both buffers the packetizer takes from
  it are overwritten in full before they are read, so zeros stand for the old contents.
\<close>

definition Buffer_allocUnsafe :: "nat \<Rightarrow> buffer" where
  "Buffer_allocUnsafe n = replicate n 0"

text \<open>
  The big-endian bytes of a value, as the writers of Node store them: the last byte is the
  value's low byte (\<^verbatim>\<open>buf[offset + n - 1] = value\<close>, stored modulo 256), then
  \<^verbatim>\<open>value = value >>> 8\<close>.
\<close>

fun be_bytes :: "nat \<Rightarrow> int \<Rightarrow> buffer" where
  "be_bytes 0 v = []"
| "be_bytes (Suc n) v = be_bytes n (drop_bit 8 v) @ [word_of_int v]"

definition write_bytes :: "buffer \<Rightarrow> buffer \<Rightarrow> nat \<Rightarrow> buffer" where
  "write_bytes buf bs offset = take offset buf @ bs @ drop (offset + length bs) buf"

text \<open>
  \<^verbatim>\<open>buf.writeUIntBE(value, offset, byteLength)\<close>: Node checks the value against
  \<open>0 .. 2^(8 * byteLength) - 1\<close> and the offset against the buffer, and throws a RangeError
  (\<^verbatim>\<open>ERR_OUT_OF_RANGE\<close>) when either is out of range; nothing is written then.
\<close>

definition writeUIntBE :: "buffer \<Rightarrow> int \<Rightarrow> nat \<Rightarrow> nat \<Rightarrow> error + buffer" where
  "writeUIntBE buf v offset byteLength =
     (if v < 0 \<or> 2 ^ (8 * byteLength) \<le> v then Inl ERR_OUT_OF_RANGE
      else if length buf < offset + byteLength then Inl ERR_OUT_OF_RANGE
      else Inr (write_bytes buf (be_bytes byteLength v) offset))"

text \<open>
  \<^verbatim>\<open>buf.writeUInt32BE(value, offset)\<close> is the same writer at four bytes. NaN passes its
  range check (both comparisons are false) and is stored as four zero bytes.
\<close>

definition writeUInt32BE :: "buffer \<Rightarrow> int option \<Rightarrow> nat \<Rightarrow> error + buffer" where
  "writeUInt32BE buf v offset =
     (case v of
        None \<Rightarrow> (if length buf < offset + 4 then Inl ERR_OUT_OF_RANGE
                 else Inr (write_bytes buf (be_bytes 4 0) offset))
      | Some n \<Rightarrow> writeUIntBE buf n offset 4)"

text \<open>\<^verbatim>\<open>buf.writeInt16BE(value, offset)\<close>: the signed range, stored in two's complement.\<close>

definition writeInt16BE :: "buffer \<Rightarrow> int \<Rightarrow> nat \<Rightarrow> error + buffer" where
  "writeInt16BE buf v offset =
     (if v < - (2 ^ 15) \<or> 2 ^ 15 \<le> v then Inl ERR_OUT_OF_RANGE
      else if length buf < offset + 2 then Inl ERR_OUT_OF_RANGE
      else Inr (write_bytes buf (be_bytes 2 v) offset))"

text \<open>Reading a big-endian unsigned value back (\<^verbatim>\<open>buf.readUIntBE(offset, byteLength)\<close>).\<close>

definition be_value :: "buffer \<Rightarrow> int" where
  "be_value bs = foldl (\<lambda>acc b. acc * 256 + uint b) 0 bs"

definition readUIntBE :: "buffer \<Rightarrow> nat \<Rightarrow> nat \<Rightarrow> int" where
  "readUIntBE buf offset byteLength = be_value (take byteLength (drop offset buf))"

text \<open>
  \<^verbatim>\<open>data.slice(start, end)\<close> of a buffer or an array: a negative index counts from the end,
  and both are clamped to the length.
\<close>

definition js_slice :: "'a list \<Rightarrow> int \<Rightarrow> int \<Rightarrow> 'a list" where
  "js_slice xs s e =
     (let n = int (length xs);
          s' = (if s < 0 then max (n + s) 0 else min s n);
          e' = (if e < 0 then max (n + e) 0 else min e n)
      in take (nat (e' - s')) (drop (nat s') xs))"

section \<open>The connection collaborator and the secret box\<close>

text \<open>
  Modelled from the spec: the connection object \<^verbatim>\<open>MediaUdp\<close> is not among the sources. The
  packetizer asks it for a nonce (\<^verbatim>\<open>getNewNonceBuffer()\<close>, 24 bytes by the spec), reads the
  session key (\<^verbatim>\<open>mediaConnection.secretkey\<close>, 32 bytes by the spec) and hands it packets
  (\<^verbatim>\<open>sendPacket\<close>). \<open>nonceBuffer\<close> is the buffer that the next call of
  \<^verbatim>\<open>getNewNonceBuffer()\<close> returns; the packets handed to \<^verbatim>\<open>sendPacket\<close> are the output
  list of the operation that sends them.
\<close>

record MediaUdp =
  nonceBuffer :: buffer
  secretkey :: buffer

text \<open>
  libsodium's XSalsa20-Poly1305 is a parameter: a function of message, nonce and key. The
  wrapper \<^verbatim>\<open>crypto_secretbox_easy\<close> checks the lengths of nonce (24) and key (32) first and
  throws a TypeError otherwise.
\<close>

type_synonym cipher = "buffer \<Rightarrow> buffer \<Rightarrow> buffer \<Rightarrow> buffer"

definition crypto_secretbox_easy :: "cipher \<Rightarrow> buffer \<Rightarrow> buffer \<Rightarrow> buffer \<Rightarrow> error + buffer" where
  "crypto_secretbox_easy box message nonce key =
     (if length nonce \<noteq> 24 then Inl (SodiumTypeError ''invalid nonce length'')
      else if length key \<noteq> 32 then Inl (SodiumTypeError ''invalid key length'')
      else Inr (box message nonce key))"

section \<open>The packetizer\<close>

record BaseMediaPacketizer =
  payloadType :: int
  mtu :: int
  sequence :: int
  timestamp :: int
  totalBytes :: int
  prevTotalPackets :: int
  lastPacketTime :: "int option"
  extensionEnabled :: bool

definition constructor :: "int \<Rightarrow> bool \<Rightarrow> BaseMediaPacketizer" where
  "constructor pt ext =
     \<lparr> payloadType = pt, mtu = 1200, sequence = 0, timestamp = 0, totalBytes = 0,
       prevTotalPackets = 0, lastPacketTime = None, extensionEnabled = ext \<rparr>"

text \<open>\<^verbatim>\<open>sendFrame\<close> samples the wall clock: \<open>now\<close> is what \<^verbatim>\<open>Date.now()\<close> returns.\<close>

definition sendFrame :: "BaseMediaPacketizer \<Rightarrow> int \<Rightarrow> BaseMediaPacketizer" where
  "sendFrame st now = st\<lparr>lastPacketTime := Some now\<rparr>"

definition getNewSequence :: "BaseMediaPacketizer \<Rightarrow> int \<times> BaseMediaPacketizer" where
  "getNewSequence st =
     (let st' = st\<lparr>sequence := js_rem (sequence st + 1) max_int32bit\<rparr>
      in (js_rem (sequence st') max_int16bit, st'))"

definition incrementTimestamp :: "BaseMediaPacketizer \<Rightarrow> int \<Rightarrow> BaseMediaPacketizer" where
  "incrementTimestamp st incrementBy =
     st\<lparr>timestamp := js_rem (timestamp st + incrementBy) max_int32bit\<rparr>"

text \<open>
  \<^verbatim>\<open>makeRtpHeader\<close> returns the header or raises, and in both cases the sequence number it
  consumed stays consumed: the result is paired with the state after the call.
\<close>

definition makeRtpHeader ::
  "BaseMediaPacketizer \<Rightarrow> int \<Rightarrow> bool \<Rightarrow> (error + buffer) \<times> BaseMediaPacketizer" where
  "makeRtpHeader st ssrc isLastPacket =
     (let packetHeader = Buffer_alloc 12;
          packetHeader = packetHeader[0 :=
            word_of_int (push_bit 6 2 OR push_bit 4 (if extensionEnabled st then 1 else 0))];
          packetHeader = packetHeader[1 := word_of_int (payloadType st)];
          packetHeader = (if isLastPacket
                          then packetHeader[1 := word_of_int (uint (packetHeader ! 1) OR 128)]
                          else packetHeader);
          (seq, st') = getNewSequence st
      in (case writeUIntBE packetHeader seq 2 2 of
            Inl e \<Rightarrow> (Inl e, st')
          | Inr packetHeader \<Rightarrow>
              (case writeUIntBE packetHeader (timestamp st') 4 4 of
                 Inl e \<Rightarrow> (Inl e, st')
               | Inr packetHeader \<Rightarrow>
                   (case writeUIntBE packetHeader ssrc 8 4 of
                      Inl e \<Rightarrow> (Inl e, st')
                    | Inr packetHeader \<Rightarrow> (Inr packetHeader, st')))))"

text \<open>
  The sender report. The NTP timestamp is the last-send wall clock minus the 1900 epoch, in
  the milliseconds of the clock; its integer part is written as the most significant word
  and its fraction, scaled by \<open>2^32\<close> and rounded, as the least significant word.
\<close>

definition makeRtcpSenderReport ::
  "cipher \<Rightarrow> MediaUdp \<Rightarrow> BaseMediaPacketizer \<Rightarrow> int \<Rightarrow> error + buffer" where
  "makeRtcpSenderReport box udp st ssrc =
     (let packetHeader = Buffer_allocUnsafe 8;
          packetHeader = packetHeader[0 := 0x80];
          packetHeader = packetHeader[1 := 0xc8];
          packetHeader = packetHeader[2 := 0x00];
          packetHeader = packetHeader[3 := 0x06]
      in case writeUInt32BE packetHeader (Some ssrc) 4 of
           Inl e \<Rightarrow> Inl e
         | Inr packetHeader \<Rightarrow>
      (let senderReport = Buffer_allocUnsafe 20;
           ntpTimestamp = map_option (\<lambda>t. rat_of_int t - rat_of_int ntpEpoch) (lastPacketTime st);
           ntpTimestampMsw = map_option (\<lambda>x. \<lfloor>x\<rfloor>) ntpTimestamp;
           ntpTimestampLsw =
             map_option (\<lambda>x. Math_round ((x - rat_of_int \<lfloor>x\<rfloor>) * rat_of_int max_int32bit))
               ntpTimestamp
       in case writeUInt32BE senderReport ntpTimestampMsw 0 of
            Inl e \<Rightarrow> Inl e
          | Inr senderReport \<Rightarrow>
       (case writeUInt32BE senderReport ntpTimestampLsw 4 of
            Inl e \<Rightarrow> Inl e
          | Inr senderReport \<Rightarrow>
       (case writeUInt32BE senderReport (Some (timestamp st)) 8 of
            Inl e \<Rightarrow> Inl e
          | Inr senderReport \<Rightarrow>
       (case writeUInt32BE senderReport (Some (sequence st)) 12 of
            Inl e \<Rightarrow> Inl e
          | Inr senderReport \<Rightarrow>
       (case writeUInt32BE senderReport (Some (totalBytes st)) 16 of
            Inl e \<Rightarrow> Inl e
          | Inr senderReport \<Rightarrow>
       (let nonce = nonceBuffer udp
        in case crypto_secretbox_easy box senderReport nonce (secretkey udp) of
             Inl e \<Rightarrow> Inl e
           | Inr boxed \<Rightarrow> Inr (packetHeader @ boxed @ js_slice nonce 0 4))))))))"

text \<open>
  \<^verbatim>\<open>onFrameSent\<close>: the result lists the packets handed to \<^verbatim>\<open>sendPacket\<close>, or is the
  error that building the report raised; the byte total is updated before either.
\<close>

definition onFrameSent ::
  "cipher \<Rightarrow> MediaUdp \<Rightarrow> BaseMediaPacketizer \<Rightarrow> int \<Rightarrow> int
     \<Rightarrow> (error + buffer list) \<times> BaseMediaPacketizer" where
  "onFrameSent box udp st bytesSent ssrc =
     (let st = st\<lparr>totalBytes := js_rem (totalBytes st + bytesSent) max_int32bit\<rparr>;
          packetCount = sequence st;
          packetCount = (if prevTotalPackets st > packetCount
                         then packetCount + max_int32bit else packetCount);
          interval = 2 ^ 7
      in if packetCount div interval - prevTotalPackets st div interval > 0
         then (case makeRtcpSenderReport box udp st ssrc of
                 Inl e \<Rightarrow> (Inl e, st)
               | Inr senderReport \<Rightarrow>
                   (Inr [senderReport], st\<lparr>prevTotalPackets := sequence st\<rparr>))
         else (Inr [], st))"

text \<open>
  \<^verbatim>\<open>partitionDataMTUSizedChunks\<close>: the \<^verbatim>\<open>while (len > 0)\<close> loop. It does not return when
  the MTU is not positive, so the loop is a partial function and \<open>None\<close> is "no result".
\<close>

partial_function (option) partition_loop ::
  "int \<Rightarrow> 'a list \<Rightarrow> int \<Rightarrow> int \<Rightarrow> 'a list list \<Rightarrow> 'a list list option" where
  "partition_loop m data i len out =
     (if len > 0
      then (let size = min len m
            in partition_loop m data (i + size) (len - size) (out @ [js_slice data i (i + size)]))
      else Some out)"

definition partitionDataMTUSizedChunks :: "BaseMediaPacketizer \<Rightarrow> 'a list \<Rightarrow> 'a list list option" where
  "partitionDataMTUSizedChunks st data = partition_loop (mtu st) data 0 (int (length data)) []"

text \<open>\<^verbatim>\<open>createHeaderExtension\<close>: the profile word, then one four-byte element per extension.\<close>

record extension =
  ext_id :: int
  ext_len :: int
  ext_val :: int

definition extensions :: "extension list" where
  "extensions = [\<lparr> ext_id = 5, ext_len = 2, ext_val = 0 \<rparr>]"

fun extensionsData :: "extension list \<Rightarrow> error + buffer list" where
  "extensionsData [] = Inr []"
| "extensionsData (ext # exts) =
     (let data = Buffer_alloc 4;
          data = data[0 := word_of_int (push_bit 4 (ext_id ext AND 15))];
          data = data[0 := word_of_int (uint (data ! 0) OR ((ext_len ext - 1) AND 15))]
      in case writeUIntBE data (ext_val ext) 1 2 of
           Inl e \<Rightarrow> Inl e
         | Inr data \<Rightarrow>
             (case extensionsData exts of
                Inl e \<Rightarrow> Inl e
              | Inr rest \<Rightarrow> Inr (data # rest)))"

definition createHeaderExtension :: "error + buffer" where
  "createHeaderExtension =
     (let profile = Buffer_alloc 4;
          profile = profile[0 := 0xBE];
          profile = profile[1 := 0xDE]
      in case writeInt16BE profile (int (length extensions)) 2 of
           Inl e \<Rightarrow> Inl e
         | Inr profile \<Rightarrow>
             (case extensionsData extensions of
                Inl e \<Rightarrow> Inl e
              | Inr elements \<Rightarrow> Inr (concat (profile # elements))))"

subsection \<open>Runs of the packetizer\<close>

text \<open>\<open>n\<close> calls of \<^verbatim>\<open>getNewSequence\<close>, one after the other.\<close>

fun getNewSequence_times :: "nat \<Rightarrow> BaseMediaPacketizer \<Rightarrow> BaseMediaPacketizer" where
  "getNewSequence_times 0 st = st"
| "getNewSequence_times (Suc n) st = snd (getNewSequence (getNewSequence_times n st))"

text \<open>
  The states a packetizer can be in: the constructor's, and what each state-changing method
  makes of a reachable state, whatever its arguments.
\<close>

inductive reachable :: "BaseMediaPacketizer \<Rightarrow> bool" where
  r_constructor: "reachable (constructor pt ext)"
| r_sendFrame: "reachable st \<Longrightarrow> reachable (sendFrame st now)"
| r_onFrameSent: "reachable st \<Longrightarrow> reachable (snd (onFrameSent box udp st bytesSent ssrc))"
| r_getNewSequence: "reachable st \<Longrightarrow> reachable (snd (getNewSequence st))"
| r_incrementTimestamp: "reachable st \<Longrightarrow> reachable (incrementTimestamp st incrementBy)"
| r_makeRtpHeader: "reachable st \<Longrightarrow> reachable (snd (makeRtpHeader st ssrc isLastPacket))"

text \<open>
  A run of \<open>n\<close> data packets: each consumes a sequence number and is followed by
  \<^verbatim>\<open>onFrameSent\<close> (with no payload bytes). The run collects the reports sent and ends at
  the first error raised.
\<close>

fun simulate ::
  "cipher \<Rightarrow> MediaUdp \<Rightarrow> int \<Rightarrow> nat \<Rightarrow> BaseMediaPacketizer
     \<Rightarrow> (error + buffer list) \<times> BaseMediaPacketizer" where
  "simulate box udp ssrc 0 st = (Inr [], st)"
| "simulate box udp ssrc (Suc n) st =
     (case onFrameSent box udp (snd (getNewSequence st)) 0 ssrc of
        (Inl e, st') \<Rightarrow> (Inl e, st')
      | (Inr sent, st') \<Rightarrow>
          (case simulate box udp ssrc n st' of
             (Inl e, st'') \<Rightarrow> (Inl e, st'')
           | (Inr sent', st'') \<Rightarrow> (Inr (sent @ sent'), st'')))"

section \<open>Codec names and the livestream entry point\<close>

text \<open>
  Strings are lists of 8-bit characters. \<^verbatim>\<open>toUpperCase\<close> and the \<^verbatim>\<open>/i\<close> flag of the
  regular expressions fold the ASCII letters; other characters are left as they are.
\<close>

definition toUpperCase_char :: "char \<Rightarrow> char" where
  "toUpperCase_char c =
     (if 97 \<le> (of_char c :: nat) \<and> (of_char c :: nat) \<le> 122
      then char_of (of_char c - 32 :: nat) else c)"

definition toUpperCase :: "string \<Rightarrow> string" where
  "toUpperCase s = map toUpperCase_char s"

fun startsWith :: "string \<Rightarrow> string \<Rightarrow> bool" where
  "startsWith s [] = True"
| "startsWith [] (p # ps) = False"
| "startsWith (c # cs) (p # ps) = (c = p \<and> startsWith cs ps)"

fun search :: "string \<Rightarrow> string \<Rightarrow> bool" where
  "search pat [] = startsWith [] pat"
| "search pat (c # cs) = (startsWith (c # cs) pat \<or> search pat cs)"

text \<open>
  \<^verbatim>\<open>/A|B|.../i.test(s)\<close> for literal alternatives written in upper case: some alternative
  occurs in \<open>s\<close>, letters compared without case. \<^verbatim>\<open>/H\.?264|AVC/i\<close> has the alternatives
  \<^verbatim>\<open>H264\<close>, \<^verbatim>\<open>H.264\<close> and \<^verbatim>\<open>AVC\<close>; \<^verbatim>\<open>/VP(8|9)/i\<close> has \<^verbatim>\<open>VP8\<close> and \<^verbatim>\<open>VP9\<close>.
\<close>

definition regex_test_i :: "string list \<Rightarrow> string \<Rightarrow> bool" where
  "regex_test_i alts s = list_ex (\<lambda>alt. search alt (toUpperCase s)) alts"

definition normalizeVideoCodec :: "string \<Rightarrow> error + string" where
  "normalizeVideoCodec codec =
     (if codec = ''h264_mediacodec'' \<or> codec = ''hevc_mediacodec'' then Inr codec
      else if regex_test_i [''H264'', ''H.264'', ''AVC''] codec then Inr ''H264''
      else if regex_test_i [''H265'', ''H.265'', ''HEVC''] codec then Inr ''H265''
      else if regex_test_i [''VP8'', ''VP9''] codec then Inr (toUpperCase codec)
      else if regex_test_i [''AV1''] codec then Inr ''AV1''
      else Inl (UnknownCodec codec))"

text \<open>
  \<^verbatim>\<open>streamLivestreamVideo\<close>, as the order of what it does: the executor of the promise
  constructs the video sink, normalises the codec, picks the splitter, and only then builds
  and runs the ffmpeg command. An error thrown in the executor rejects the promise. The
  result is the promise's fate with the actions taken so far; the ffmpeg library itself is
  taken to start without error.
\<close>

datatype videoOutput = H264NalSplitter | H265NalSplitter | IvfTransformer

datatype action =
    NewVideoStream
  | NewVideoOutput videoOutput
  | FfmpegCommand
  | VideoOutputFormat string
  | PipeVideo
  | AudioOutput
  | PipeAudio
  | CommandRun

datatype promise = Rejected error | Running

definition streamLivestreamVideo :: "string \<Rightarrow> bool \<Rightarrow> promise \<times> action list" where
  "streamLivestreamVideo videoCodecOption includeAudio =
     (let acts = [NewVideoStream]
      in case normalizeVideoCodec videoCodecOption of
           Inl e \<Rightarrow> (Rejected e, acts)
         | Inr videoCodec \<Rightarrow>
             (case (if videoCodec = ''h264_mediacodec'' \<or> videoCodec = ''H264''
                    then Inr H264NalSplitter
                    else if videoCodec = ''hevc_mediacodec'' \<or> videoCodec = ''H265''
                    then Inr H265NalSplitter
                    else if videoCodec = ''VP8'' then Inr IvfTransformer
                    else Inl CodecNotSupported) of
                Inl e \<Rightarrow> (Rejected e, acts)
              | Inr videoOutput \<Rightarrow>
                  (Running,
                   acts @ [NewVideoOutput videoOutput, FfmpegCommand,
                     VideoOutputFormat
                       (if videoCodec = ''VP8'' then ''ivf''
                        else if videoCodec = ''H265'' then ''hevc'' else videoCodec),
                     PipeVideo]
                   @ (if includeAudio then [AudioOutput, PipeAudio] else [])
                   @ [CommandRun])))"

section \<open>Derived notions used in the statements\<close>

text \<open>The first two bytes of an RTP header, as \<^verbatim>\<open>makeRtpHeader\<close> computes them.\<close>

definition rtp_byte0 :: "bool \<Rightarrow> byte" where
  "rtp_byte0 ext = word_of_int (push_bit 6 2 OR push_bit 4 (if ext then 1 else 0))"

definition rtp_byte1 :: "int \<Rightarrow> bool \<Rightarrow> byte" where
  "rtp_byte1 pt isLastPacket =
     (if isLastPacket then word_of_int (uint (word_of_int pt :: byte) OR 128) else word_of_int pt)"

text \<open>
  A stand-in for the cipher and the connection, to run the definitions on concrete inputs:
  sixteen zero bytes in the place of the tag and the message in the place of the ciphertext;
  a zero nonce and a zero key of the right lengths.
\<close>

definition test_box :: cipher where
  "test_box m n k = replicate 16 0 @ m"

definition test_udp :: MediaUdp where
  "test_udp = \<lparr> nonceBuffer = replicate 24 0, secretkey = replicate 32 0 \<rparr>"

text \<open>
  The reporting rule in the words of the specification: with \<open>effective\<close> the raw sequence,
  plus \<open>2^32\<close> when the last reported packet count exceeds it, a report is due iff
  \<open>floor (effective / 128) - floor (lastReportedPacketCount / 128) > 0\<close>.
\<close>

definition report_due :: "BaseMediaPacketizer \<Rightarrow> bool" where
  "report_due st \<longleftrightarrow>
     (let effective = (if prevTotalPackets st > sequence st then sequence st + 2 ^ 32 else sequence st)
      in effective div 128 - prevTotalPackets st div 128 > 0)"

text \<open>
  The start of the run across the wraparound: \<open>2^32 - 11\<close> packets are out, the last report
  went out at \<open>2^32 - 128\<close> (the last multiple of 128 below the boundary), and the next 31
  packets have the raw counts \<open>2^32 - 10 .. 2^32 + 20\<close>. The argument is the last-send wall
  clock.
\<close>

definition wrap_state :: "int option \<Rightarrow> BaseMediaPacketizer" where
  "wrap_state clock =
     \<lparr> payloadType = 101, mtu = 1200, sequence = 2 ^ 32 - 11, timestamp = 0, totalBytes = 0,
       prevTotalPackets = 2 ^ 32 - 128, lastPacketTime = clock, extensionEnabled = False \<rparr>"

text \<open>
  How many of the next \<open>n\<close> raw packet counts after \<open>s\<close> are multiples of 128: the
  128-packet boundaries the run crosses.
\<close>

definition boundaries :: "int \<Rightarrow> nat \<Rightarrow> nat" where
  "boundaries s n = length (filter (\<lambda>k. (s + int k) mod 128 = 0) [1..<Suc n])"



section \<open>Bytes and writers\<close>

lemma length_be_bytes: "length (be_bytes n v) = n"
  by (induction n arbitrary: v) auto

lemma be_value_snoc: "be_value (bs @ [b]) = be_value bs * 256 + uint b"
  by (simp add: be_value_def)

lemma be_value_be_bytes: "0 \<le> v \<Longrightarrow> v < 2 ^ (8 * n) \<Longrightarrow> be_value (be_bytes n v) = v"
proof (induction n arbitrary: v)
  case 0
  then show ?case by (simp add: be_value_def)
next
  case (Suc n)
  have lo: "0 \<le> v div 256" using Suc.prems by simp
  have "v < 256 * 2 ^ (8 * n)" using Suc.prems by (simp add: power_add mult.commute)
  then have hi: "v div 256 < 2 ^ (8 * n)"
    by (simp add: div_less_iff_less_mult mult.commute)
  have "be_value (be_bytes n (v div 256)) = v div 256"
    using Suc.IH [OF lo hi] .
  moreover have "uint (word_of_int v :: byte) = v mod 256"
    by (simp add: uint_word_of_int)
  ultimately show ?case
    by (simp add: be_value_snoc drop_bit_eq_div)
qed

lemma be_bytes_4:
  "be_bytes 4 v =
     [word_of_int (v div 2 ^ 24), word_of_int (v div 2 ^ 16), word_of_int (v div 2 ^ 8), word_of_int v]"
proof -
  have "be_bytes (Suc (Suc (Suc (Suc 0)))) v =
     [word_of_int (v div 2 ^ 24), word_of_int (v div 2 ^ 16), word_of_int (v div 2 ^ 8), word_of_int v]"
    by (simp add: drop_bit_eq_div zdiv_zmult2_eq [symmetric])
  then show ?thesis by (simp add: numeral_eq_Suc)
qed

lemma js_rem_nonneg: "0 \<le> a \<Longrightarrow> 0 < b \<Longrightarrow> js_rem a b = a mod b"
  by (cases "a = 0") (simp_all add: js_rem_def)

lemma writeUIntBE_Inr:
  "writeUIntBE buf v off n = Inr buf' \<Longrightarrow>
     0 \<le> v \<and> v < 2 ^ (8 * n) \<and> off + n \<le> length buf \<and> buf' = write_bytes buf (be_bytes n v) off"
  by (auto simp: writeUIntBE_def split: if_splits)

lemma length_write_bytes:
  "off + length bs \<le> length buf \<Longrightarrow> length (write_bytes buf bs off) = length buf"
  by (simp add: write_bytes_def)



lemma writeUIntBE_ok:
  "0 \<le> v \<Longrightarrow> v < 2 ^ (8 * n) \<Longrightarrow> off + n \<le> length buf \<Longrightarrow>
     writeUIntBE buf v off n = Inr (write_bytes buf (be_bytes n v) off)"
  by (simp add: writeUIntBE_def)

lemma writeUInt32BE_ok:
  "(case v of None \<Rightarrow> True | Some n \<Rightarrow> 0 \<le> n \<and> n < 2 ^ 32) \<Longrightarrow> off + 4 \<le> length buf \<Longrightarrow>
     \<exists>buf'. writeUInt32BE buf v off = Inr buf' \<and> length buf' = length buf"
  by (cases v) (simp_all add: writeUInt32BE_def writeUIntBE_def length_write_bytes length_be_bytes)

lemma writeUInt32BE_error: "writeUInt32BE buf v off = Inl e \<Longrightarrow> e = ERR_OUT_OF_RANGE"
  by (auto simp: writeUInt32BE_def writeUIntBE_def split: option.splits if_splits)

lemma writeUInt32BE_too_big: "2 ^ 32 \<le> n \<Longrightarrow> writeUInt32BE buf (Some n) off = Inl ERR_OUT_OF_RANGE"
  by (simp add: writeUInt32BE_def writeUIntBE_def)

lemma Math_round_0: "Math_round 0 = 0"
proof -
  have "\<lfloor>(1 :: rat) / 2\<rfloor> = 0" by (rule floor_unique) simp_all
  then show ?thesis by (simp add: Math_round_def)
qed

lemma js_slice_take_drop:
  "0 \<le> s \<Longrightarrow> s \<le> e \<Longrightarrow> e \<le> int (length xs) \<Longrightarrow>
     js_slice xs s e = take (nat (e - s)) (drop (nat s) xs)"
  by (simp add: js_slice_def Let_def min_def)

section \<open>The sequence counter\<close>

lemma sequence_times_constructor:
  "sequence (getNewSequence_times n (constructor pt ext)) = int n mod 2 ^ 32"
proof (induction n)
  case 0
  show ?case by (simp add: constructor_def)
next
  case (Suc n)
  have "0 \<le> int n mod 2 ^ 32 + 1" by simp
  then show ?case using Suc
    by (simp add: getNewSequence_def Let_def js_rem_nonneg max_int32bit_def mod_simps add.commute)
qed

text \<open>
  C3. On a freshly constructed packetizer the counter starts at 0; after \<open>n\<close> calls of
  \<^verbatim>\<open>getNewSequence\<close> it is \<open>n mod 2^32\<close>; the next call, the \<open>(n+1)\<close>-th, returns
  \<open>((n+1) mod 2^32) mod 65536\<close>, which is the counter after the increment truncated to 16
  bits; and each call either adds one to the counter or wraps it from \<open>2^32 - 1\<close> to 0.
\<close>

theorem getNewSequence_counts:
  "sequence (constructor pt ext) = 0 \<and>
   sequence (getNewSequence_times n (constructor pt ext)) = int n mod 2 ^ 32 \<and>
   fst (getNewSequence (getNewSequence_times n (constructor pt ext)))
     = (int (Suc n) mod 2 ^ 32) mod 65536 \<and>
   fst (getNewSequence (getNewSequence_times n (constructor pt ext)))
     = sequence (getNewSequence_times (Suc n) (constructor pt ext)) mod 65536 \<and>
   (sequence (getNewSequence_times (Suc n) (constructor pt ext))
      = sequence (getNewSequence_times n (constructor pt ext)) + 1
    \<or> (sequence (getNewSequence_times n (constructor pt ext)) = 2 ^ 32 - 1 \<and>
       sequence (getNewSequence_times (Suc n) (constructor pt ext)) = 0))"
proof -
  let ?s = "\<lambda>k. sequence (getNewSequence_times k (constructor pt ext))"
  have s: "\<And>k. ?s k = int k mod 2 ^ 32" by (rule sequence_times_constructor)
  have nn: "0 \<le> ?s (Suc n)" unfolding s by simp
  have r: "fst (getNewSequence (getNewSequence_times n (constructor pt ext))) = ?s (Suc n) mod 65536"
    using nn by (simp add: getNewSequence_def Let_def js_rem_nonneg max_int16bit_def)
  have step: "?s (Suc n) = (?s n + 1) mod 2 ^ 32"
    unfolding s by (simp add: mod_simps add.commute)
  have bound: "0 \<le> ?s n" "?s n < 2 ^ 32" unfolding s by simp_all
  have mono: "?s (Suc n) = ?s n + 1 \<or> (?s n = 2 ^ 32 - 1 \<and> ?s (Suc n) = 0)"
  proof (cases "?s n = 2 ^ 32 - 1")
    case True
    then show ?thesis using step by simp
  next
    case False
    then have "?s n + 1 < 2 ^ 32" using bound by simp
    then show ?thesis using step bound by simp
  qed
  show ?thesis using s [of n] s [of "Suc n"] r mono
    by (simp add: constructor_def)
qed

lemma getNewSequence_range:
  assumes "0 \<le> sequence st" "sequence st < 2 ^ 32"
  shows "0 \<le> sequence (snd (getNewSequence st)) \<and> sequence (snd (getNewSequence st)) < 2 ^ 32"
  using assms by (simp add: getNewSequence_def Let_def js_rem_nonneg max_int32bit_def)

section \<open>The RTP header\<close>

lemma snd_case_sum:
  "snd (case r of Inl e \<Rightarrow> (Inl e, s) | Inr x \<Rightarrow> f x) = s" if "\<And>x. snd (f x) = s"
  using that by (cases r) simp_all

lemma fst_case_sum_Inr:
  "fst (case r of Inl e \<Rightarrow> (Inl e, s) | Inr x \<Rightarrow> f x) = Inr h \<Longrightarrow> \<exists>x. r = Inr x \<and> fst (f x) = Inr h"
  by (cases r) auto

lemma makeRtpHeader_state:
  "snd (makeRtpHeader st ssrc isLastPacket) = snd (getNewSequence st)"
  unfolding makeRtpHeader_def Let_def case_prod_beta
  by (intro snd_case_sum) simp

text \<open>
  C10. \<^verbatim>\<open>makeRtpHeader\<close> changes the sequence counter and nothing else, whether it returns
  a header or raises: timestamp, byte total, last reported packet count, last-send wall
  clock, payload type, MTU and extension flag are as before. \<^verbatim>\<open>incrementTimestamp\<close>
  changes the timestamp and nothing else.
\<close>

theorem makeRtpHeader_frame:
  "timestamp (snd (makeRtpHeader st ssrc isLastPacket)) = timestamp st \<and>
   totalBytes (snd (makeRtpHeader st ssrc isLastPacket)) = totalBytes st \<and>
   prevTotalPackets (snd (makeRtpHeader st ssrc isLastPacket)) = prevTotalPackets st \<and>
   lastPacketTime (snd (makeRtpHeader st ssrc isLastPacket)) = lastPacketTime st \<and>
   payloadType (snd (makeRtpHeader st ssrc isLastPacket)) = payloadType st \<and>
   mtu (snd (makeRtpHeader st ssrc isLastPacket)) = mtu st \<and>
   extensionEnabled (snd (makeRtpHeader st ssrc isLastPacket)) = extensionEnabled st \<and>
   snd (makeRtpHeader st ssrc isLastPacket)
     = st\<lparr>sequence := js_rem (sequence st + 1) max_int32bit\<rparr> \<and>
   sequence (incrementTimestamp st incrementBy) = sequence st \<and>
   totalBytes (incrementTimestamp st incrementBy) = totalBytes st \<and>
   prevTotalPackets (incrementTimestamp st incrementBy) = prevTotalPackets st \<and>
   lastPacketTime (incrementTimestamp st incrementBy) = lastPacketTime st \<and>
   payloadType (incrementTimestamp st incrementBy) = payloadType st \<and>
   mtu (incrementTimestamp st incrementBy) = mtu st \<and>
   extensionEnabled (incrementTimestamp st incrementBy) = extensionEnabled st \<and>
   incrementTimestamp st incrementBy
     = st\<lparr>timestamp := js_rem (timestamp st + incrementBy) max_int32bit\<rparr>"
proof -
  have "snd (makeRtpHeader st ssrc isLastPacket)
     = st\<lparr>sequence := js_rem (sequence st + 1) max_int32bit\<rparr>"
    by (simp add: makeRtpHeader_state getNewSequence_def Let_def)
  then show ?thesis
    by (simp add: incrementTimestamp_def)
qed

lemma header_bytes_init:
  "((Buffer_alloc 12)[0 := b0])[Suc 0 := b1] = b0 # b1 # replicate 10 0"
  by (simp add: Buffer_alloc_def numeral_eq_Suc)

lemma header_bytes_marker: "(b0 # b1 # bs)[Suc 0 := b2] = b0 # b2 # bs"
  by simp

lemma header_bytes_nth1: "(b0 # b1 # bs) ! Suc 0 = b1"
  by simp

lemma makeRtpHeader_Inr:
  assumes "fst (makeRtpHeader st ssrc isLastPacket) = Inr hdr"
  shows "hdr = [rtp_byte0 (extensionEnabled st), rtp_byte1 (payloadType st) isLastPacket]
               @ be_bytes 2 (fst (getNewSequence st)) @ be_bytes 4 (timestamp st) @ be_bytes 4 ssrc
         \<and> 0 \<le> fst (getNewSequence st) \<and> fst (getNewSequence st) < 2 ^ 16
         \<and> 0 \<le> timestamp st \<and> timestamp st < 2 ^ 32 \<and> 0 \<le> ssrc \<and> ssrc < 2 ^ 32"
proof -
  let ?h0 = "rtp_byte0 (extensionEnabled st) # rtp_byte1 (payloadType st) isLastPacket # replicate 10 0"
  have ts: "timestamp (snd (getNewSequence st)) = timestamp st"
    by (simp add: getNewSequence_def Let_def)
  from assms obtain h1 h2 where
    h1: "writeUIntBE ?h0 (fst (getNewSequence st)) 2 2 = Inr h1" and
    h2: "writeUIntBE h1 (timestamp st) 4 4 = Inr h2" and
    h3: "writeUIntBE h2 ssrc 8 4 = Inr hdr"
    unfolding makeRtpHeader_def Let_def case_prod_beta ts
    by (cases isLastPacket)
      (auto dest!: fst_case_sum_Inr simp: header_bytes_init header_bytes_marker header_bytes_nth1
        rtp_byte0_def rtp_byte1_def split: sum.splits)
  from writeUIntBE_Inr [OF h1] writeUIntBE_Inr [OF h2] writeUIntBE_Inr [OF h3]
  show ?thesis
    by (simp add: write_bytes_def length_be_bytes)
qed

lemma rtp_byte0_cases: "rtp_byte0 ext = (if ext then 0x90 else 0x80)"
  by (simp add: rtp_byte0_def)

lemma rtp_byte0_bits:
  "bit (rtp_byte0 ext) 7 \<and> \<not> bit (rtp_byte0 ext) 6 \<and> \<not> bit (rtp_byte0 ext) 5 \<and>
   bit (rtp_byte0 ext) 4 = ext \<and> take_bit 4 (rtp_byte0 ext) = 0"
  by (cases ext) (simp_all add: rtp_byte0_cases)

lemma rtp_byte1_marker:
  assumes "0 \<le> pt" "pt < 128"
  shows "bit (rtp_byte1 pt isLastPacket) 7 = isLastPacket"
proof -
  have "pt div 128 = 0" using assms by simp
  then have nb: "\<not> bit pt 7" by (simp add: bit_iff_odd)
  have u: "uint (word_of_int pt :: byte) = pt"
    using assms by (simp add: uint_word_of_int take_bit_eq_mod)
  show ?thesis
    by (cases isLastPacket) (simp_all add: rtp_byte1_def u nb bit_word_of_int_iff bit_or_iff)
qed

lemma rtp_byte1_low:
  assumes "0 \<le> pt" "pt < 128"
  shows "uint (take_bit 7 (rtp_byte1 pt isLastPacket)) = pt"
proof -
  have u: "uint (word_of_int pt :: byte) = pt"
    using assms by (simp add: uint_word_of_int take_bit_eq_mod)
  have t: "take_bit 7 pt = pt" using assms by (simp add: take_bit_eq_mod)
  have o: "take_bit 7 (pt OR 128) = pt"
    by (simp add: take_bit_or t)
  have "uint (take_bit 7 (word_of_int k :: byte)) = take_bit 7 k" for k :: int
    by (simp add: unsigned_take_bit_eq uint_word_of_int_eq min_def)
  then show ?thesis
    using t o by (cases isLastPacket) (simp_all add: rtp_byte1_def u)
qed

text \<open>
  C4, as amended. For a packetizer whose payload type is a 7-bit value (\<open>0 .. 127\<close>), every
  header that \<^verbatim>\<open>makeRtpHeader\<close> returns has 12 bytes; the top two bits of byte 0 are binary
  10; bit 4 of byte 0 is the extension flag; the high bit of byte 1 is set iff
  \<open>isLastPacket\<close>, and its low 7 bits are the payload type; bytes 2-3 are the sequence counter
  after its increment, truncated to 16 bits, big-endian; bytes 4-7 are the timestamp and
  bytes 8-11 the ssrc, big-endian.
\<close>

theorem makeRtpHeader_layout:
  assumes pt: "0 \<le> payloadType st" "payloadType st < 128"
      and ret: "fst (makeRtpHeader st ssrc isLastPacket) = Inr hdr"
  shows "length hdr = 12 \<and>
         bit (hdr ! 0) 7 \<and> \<not> bit (hdr ! 0) 6 \<and>
         bit (hdr ! 0) 4 = extensionEnabled st \<and>
         bit (hdr ! 1) 7 = isLastPacket \<and>
         uint (take_bit 7 (hdr ! 1)) = payloadType st \<and>
         readUIntBE hdr 2 2 = js_rem (sequence (snd (makeRtpHeader st ssrc isLastPacket))) max_int16bit \<and>
         sequence (snd (makeRtpHeader st ssrc isLastPacket)) = js_rem (sequence st + 1) max_int32bit \<and>
         readUIntBE hdr 4 4 = timestamp st \<and>
         readUIntBE hdr 8 4 = ssrc"
proof -
  let ?seq = "fst (getNewSequence st)"
  let ?b0 = "rtp_byte0 (extensionEnabled st)"
  let ?b1 = "rtp_byte1 (payloadType st) isLastPacket"
  from makeRtpHeader_Inr [OF ret] have
    hdr: "hdr = [?b0, ?b1] @ be_bytes 2 ?seq @ be_bytes 4 (timestamp st) @ be_bytes 4 ssrc" and
    seq: "0 \<le> ?seq" "?seq < 2 ^ 16" and ts: "0 \<le> timestamp st" "timestamp st < 2 ^ 32" and
    ss: "0 \<le> ssrc" "ssrc < 2 ^ 32"
    by simp_all
  have l2: "length (be_bytes 2 ?seq) = 2" and l4: "length (be_bytes 4 (timestamp st)) = 4"
    and l4': "length (be_bytes 4 ssrc) = 4"
    by (rule length_be_bytes)+
  have v2: "be_value (be_bytes 2 ?seq) = ?seq"
    using be_value_be_bytes [of ?seq 2] seq by simp
  have v4: "be_value (be_bytes 4 (timestamp st)) = timestamp st"
    using be_value_be_bytes [of "timestamp st" 4] ts by simp
  have v4': "be_value (be_bytes 4 ssrc) = ssrc"
    using be_value_be_bytes [of ssrc 4] ss by simp
  have n0: "hdr ! 0 = ?b0" and n1: "hdr ! 1 = ?b1" by (simp_all add: hdr)
  have 1: "length hdr = 12" using l2 l4 l4' by (simp add: hdr)
  have 2: "bit (hdr ! 0) 7 \<and> \<not> bit (hdr ! 0) 6 \<and> bit (hdr ! 0) 4 = extensionEnabled st"
    unfolding n0 using rtp_byte0_bits [of "extensionEnabled st"] by blast
  have 3: "bit (hdr ! 1) 7 = isLastPacket"
    unfolding n1 by (rule rtp_byte1_marker [OF pt])
  have 4: "uint (take_bit 7 (hdr ! 1)) = payloadType st"
    unfolding n1 by (rule rtp_byte1_low [OF pt])
  have st': "snd (makeRtpHeader st ssrc isLastPacket) = snd (getNewSequence st)"
    by (rule makeRtpHeader_state)
  have 5: "readUIntBE hdr 2 2 = ?seq"
    using l2 v2 by (simp add: hdr readUIntBE_def)
  have 6: "?seq = js_rem (sequence (snd (makeRtpHeader st ssrc isLastPacket))) max_int16bit"
    unfolding st' by (simp add: getNewSequence_def Let_def)
  have 7: "sequence (snd (makeRtpHeader st ssrc isLastPacket)) = js_rem (sequence st + 1) max_int32bit"
    unfolding st' by (simp add: getNewSequence_def Let_def)
  have 8: "readUIntBE hdr 4 4 = timestamp st"
    using l2 l4 v4 by (simp add: hdr readUIntBE_def)
  have 9: "readUIntBE hdr 8 4 = ssrc"
    using l2 l4 l4' v4' by (simp add: hdr readUIntBE_def)
  from 1 2 3 4 5 6 7 8 9 show ?thesis by simp
qed

theorem makeRtpHeader_layout_witness:
  "0 \<le> payloadType (constructor 101 False) \<and>
   payloadType (constructor 101 False) < 128 \<and>
   fst (makeRtpHeader (constructor 101 False) 12345 True)
     = Inr [0x80, 0xE5, 0x00, 0x01, 0, 0, 0, 0, 0, 0, 0x30, 0x39] \<and>
   (length [0x80, 0xE5, 0x00, 0x01, 0, 0, 0, 0, 0, 0, 0x30, 0x39 :: byte] = 12 \<and>
    bit ([0x80, 0xE5, 0x00, 0x01, 0, 0, 0, 0, 0, 0, 0x30, 0x39 :: byte] ! 0) 7 \<and>
    \<not> bit ([0x80, 0xE5, 0x00, 0x01, 0, 0, 0, 0, 0, 0, 0x30, 0x39 :: byte] ! 0) 6 \<and>
    bit ([0x80, 0xE5, 0x00, 0x01, 0, 0, 0, 0, 0, 0, 0x30, 0x39 :: byte] ! 0) 4
      = extensionEnabled (constructor 101 False) \<and>
    bit ([0x80, 0xE5, 0x00, 0x01, 0, 0, 0, 0, 0, 0, 0x30, 0x39 :: byte] ! 1) 7 = True \<and>
    uint (take_bit 7 ([0x80, 0xE5, 0x00, 0x01, 0, 0, 0, 0, 0, 0, 0x30, 0x39 :: byte] ! 1))
      = payloadType (constructor 101 False) \<and>
    readUIntBE [0x80, 0xE5, 0x00, 0x01, 0, 0, 0, 0, 0, 0, 0x30, 0x39] 2 2
      = js_rem (sequence (snd (makeRtpHeader (constructor 101 False) 12345 True))) max_int16bit \<and>
    sequence (snd (makeRtpHeader (constructor 101 False) 12345 True))
      = js_rem (sequence (constructor 101 False) + 1) max_int32bit \<and>
    readUIntBE [0x80, 0xE5, 0x00, 0x01, 0, 0, 0, 0, 0, 0, 0x30, 0x39] 4 4
      = timestamp (constructor 101 False) \<and>
    readUIntBE [0x80, 0xE5, 0x00, 0x01, 0, 0, 0, 0, 0, 0, 0x30, 0x39] 8 4 = 12345)"
proof -
  have p1: "0 \<le> payloadType (constructor 101 False)" by (simp add: constructor_def)
  have p2: "payloadType (constructor 101 False) < 128" by (simp add: constructor_def)
  have r: "fst (makeRtpHeader (constructor 101 False) 12345 True)
     = Inr [0x80, 0xE5, 0x00, 0x01, 0, 0, 0, 0, 0, 0, 0x30, 0x39]"
    by code_simp
  show ?thesis
    by (rule conjI [OF p1 conjI [OF p2 conjI [OF r makeRtpHeader_layout [OF p1 p2 r]]]])
qed

text \<open>
  C4 as stated fails: a packetizer constructed with payload type 200 returns, for
  \<open>isLastPacket = False\<close>, a header whose byte 1 is \<open>0xC8\<close>; its high bit, the marker, is set,
  and its low 7 bits are 72, not the payload type.
\<close>

theorem makeRtpHeader_marker_counterexample:
  "fst (makeRtpHeader (constructor 200 False) 12345 False)
     = Inr [0x80, 0xC8, 0x00, 0x01, 0, 0, 0, 0, 0, 0, 0x30, 0x39] \<and>
   bit ([0x80, 0xC8, 0x00, 0x01, 0, 0, 0, 0, 0, 0, 0x30, 0x39 :: byte] ! 1) 7 \<and>
   uint (take_bit 7 ([0x80, 0xC8, 0x00, 0x01, 0, 0, 0, 0, 0, 0, 0x30, 0x39 :: byte] ! 1)) = 72"
  by code_simp

text \<open>The header is returned whenever counter, timestamp and ssrc are unsigned 32-bit values.\<close>

lemma makeRtpHeader_returns:
  assumes s: "0 \<le> sequence st" "sequence st < 2 ^ 32"
      and t: "0 \<le> timestamp st" "timestamp st < 2 ^ 32"
      and r: "0 \<le> ssrc" "ssrc < 2 ^ 32"
  shows "\<exists>hdr. fst (makeRtpHeader st ssrc isLastPacket) = Inr hdr"
proof -
  let ?seq = "fst (getNewSequence st)"
  have "0 \<le> js_rem (sequence st + 1) max_int32bit"
    using s by (simp add: js_rem_nonneg max_int32bit_def)
  then have q: "0 \<le> ?seq" "?seq < 2 ^ 16"
    by (simp_all add: getNewSequence_def Let_def js_rem_nonneg max_int16bit_def)
  have ts: "timestamp (snd (getNewSequence st)) = timestamp st"
    by (simp add: getNewSequence_def Let_def)
  define h0 where "h0 = (if isLastPacket
      then (((Buffer_alloc 12)[0 := rtp_byte0 (extensionEnabled st)])[1 := word_of_int (payloadType st)])
             [1 := word_of_int (uint ((((Buffer_alloc 12)[0 := rtp_byte0 (extensionEnabled st)])[1 := word_of_int (payloadType st)]) ! 1) OR 128)]
      else ((Buffer_alloc 12)[0 := rtp_byte0 (extensionEnabled st)])[1 := word_of_int (payloadType st)])"
  have l0: "length h0 = 12" by (simp add: h0_def Buffer_alloc_def)
  define h1 where "h1 = write_bytes h0 (be_bytes 2 ?seq) 2"
  define h2 where "h2 = write_bytes h1 (be_bytes 4 (timestamp st)) 4"
  have l1: "length h1 = 12" unfolding h1_def using l0 by (simp add: length_write_bytes length_be_bytes)
  have l2: "length h2 = 12" unfolding h2_def using l1 by (simp add: length_write_bytes length_be_bytes)
  have w1: "writeUIntBE h0 ?seq 2 2 = Inr h1"
    unfolding h1_def using q l0 by (intro writeUIntBE_ok) simp_all
  have w2: "writeUIntBE h1 (timestamp st) 4 4 = Inr h2"
    unfolding h2_def using t l1 by (intro writeUIntBE_ok) simp_all
  have w3: "writeUIntBE h2 ssrc 8 4 = Inr (write_bytes h2 (be_bytes 4 ssrc) 8)"
    using r l2 by (intro writeUIntBE_ok) simp_all
  have "fst (makeRtpHeader st ssrc isLastPacket) = Inr (write_bytes h2 (be_bytes 4 ssrc) 8)"
    unfolding makeRtpHeader_def Let_def case_prod_beta ts rtp_byte0_def [symmetric] h0_def [symmetric]
    by (simp add: w1 w2 w3)
  then show ?thesis by blast
qed

section \<open>Reachable states\<close>

lemma onFrameSent_mtu_sequence:
  "mtu (snd (onFrameSent box udp st bytesSent ssrc)) = mtu st \<and>
   sequence (snd (onFrameSent box udp st bytesSent ssrc)) = sequence st"
  by (simp add: onFrameSent_def Let_def split: sum.splits)

lemma reachable_mtu: "reachable st \<Longrightarrow> mtu st = 1200"
proof (induction rule: reachable.induct)
  case (r_constructor pt ext)
  show ?case by (simp add: constructor_def)
next
  case (r_sendFrame st now)
  then show ?case by (simp add: sendFrame_def)
next
  case (r_onFrameSent st box udp bytesSent ssrc)
  then show ?case by (simp add: onFrameSent_mtu_sequence)
next
  case (r_getNewSequence st)
  then show ?case by (simp add: getNewSequence_def Let_def)
next
  case (r_incrementTimestamp st incrementBy)
  then show ?case by (simp add: incrementTimestamp_def)
next
  case (r_makeRtpHeader st ssrc isLastPacket)
  then show ?case by (simp add: makeRtpHeader_state getNewSequence_def Let_def)
qed

lemma reachable_sequence: "reachable st \<Longrightarrow> 0 \<le> sequence st \<and> sequence st < 2 ^ 32"
proof (induction rule: reachable.induct)
  case (r_constructor pt ext)
  show ?case by (simp add: constructor_def)
next
  case (r_sendFrame st now)
  then show ?case by (simp add: sendFrame_def)
next
  case (r_onFrameSent st box udp bytesSent ssrc)
  then show ?case by (simp add: onFrameSent_mtu_sequence)
next
  case (r_getNewSequence st)
  then show ?case using getNewSequence_range by blast
next
  case (r_incrementTimestamp st incrementBy)
  then show ?case by (simp add: incrementTimestamp_def)
next
  case (r_makeRtpHeader st ssrc isLastPacket)
  then show ?case using getNewSequence_range by (simp add: makeRtpHeader_state)
qed

section \<open>The chunker\<close>

text \<open>
  The loop invariant: from offset \<open>i\<close> with \<open>len\<close> bytes left, the loop returns, appending to
  \<open>out\<close> chunks that concatenate to the rest of the data, each at most the MTU long and all
  but the last exactly that long.
\<close>

lemma partition_loop_chunks:
  assumes "0 < m" "0 \<le> i" "0 \<le> len" "i + len = int (length data)"
  shows "\<exists>rest. partition_loop m data i len out = Some (out @ rest) \<and>
           concat rest = drop (nat i) data \<and>
           (\<forall>c \<in> set rest. int (length c) \<le> m) \<and>
           (\<forall>c \<in> set (butlast rest). int (length c) = m) \<and>
           (len = 0 \<longrightarrow> rest = [])"
  using assms
proof (induction "nat len" arbitrary: i len out rule: less_induct)
  case less
  show ?case
  proof (cases "0 < len")
    case False
    then have "len = 0" using less.prems by simp
    then show ?thesis using less.prems
      by (subst partition_loop.simps) simp
  next
    case True
    define size where "size = min len m"
    define c where "c = js_slice data i (i + size)"
    have sz: "0 < size" "size \<le> len" "size \<le> m" using True less.prems by (simp_all add: size_def)
    have c_eq: "c = take (nat size) (drop (nat i) data)"
      unfolding c_def using sz less.prems by (simp add: js_slice_take_drop)
    have c_len: "int (length c) = size"
      unfolding c_eq using sz less.prems by simp
    have "nat (len - size) < nat len" using sz True by simp
    from less.hyps [OF this, of "i + size" "out @ [c]"] less.prems sz
    obtain rest where
      r: "partition_loop m data (i + size) (len - size) (out @ [c]) = Some ((out @ [c]) @ rest)" and
      cc: "concat rest = drop (nat (i + size)) data" and
      le: "\<forall>c \<in> set rest. int (length c) \<le> m" and
      eq: "\<forall>c \<in> set (butlast rest). int (length c) = m" and
      em: "len - size = 0 \<longrightarrow> rest = []"
      by auto
    have unfold: "partition_loop m data i len out = Some (out @ (c # rest))"
      using True r
      by (subst partition_loop.simps) (simp add: Let_def size_def [symmetric] c_def [symmetric])
    have "nat (i + size) = nat i + nat size" using less.prems sz by (simp add: nat_add_distrib)
    then have "drop (nat (i + size)) data = drop (nat size) (drop (nat i) data)"
      by (simp add: add.commute)
    then have "concat (c # rest)
        = take (nat size) (drop (nat i) data) @ drop (nat size) (drop (nat i) data)"
      using cc by (simp add: c_eq)
    then have cat: "concat (c # rest) = drop (nat i) data"
      by (simp only: append_take_drop_id)
    have le': "\<forall>c' \<in> set (c # rest). int (length c') \<le> m"
      using le c_len sz by simp
    have eq': "\<forall>c' \<in> set (butlast (c # rest)). int (length c') = m"
    proof (cases "rest = []")
      case True
      then show ?thesis by simp
    next
      case False
      then have "len - size \<noteq> 0" using em by blast
      then have "size = m" using sz by (simp add: size_def min_def split: if_splits)
      then show ?thesis using eq c_len False by simp
    qed
    from unfold cat le' eq' True show ?thesis by blast
  qed
qed

lemma partitionDataMTUSizedChunks_1200:
  assumes "mtu st = 1200"
  shows "\<exists>chunks. partitionDataMTUSizedChunks st data = Some chunks \<and>
           concat chunks = data \<and>
           (\<forall>c \<in> set chunks. length c \<le> 1200) \<and>
           (\<forall>c \<in> set (butlast chunks). length c = 1200) \<and>
           (data = [] \<longrightarrow> chunks = [])"
proof -
  from partition_loop_chunks [of 1200 0 "int (length data)" data "[]"]
  obtain rest where
    r: "partition_loop 1200 data 0 (int (length data)) [] = Some rest" and
    cc: "concat rest = data" and
    le: "\<forall>c \<in> set rest. int (length c) \<le> 1200" and
    eq: "\<forall>c \<in> set (butlast rest). int (length c) = 1200" and
    em: "int (length data) = 0 \<longrightarrow> rest = []"
    by auto
  from r cc le eq em show ?thesis
    by (auto simp: partitionDataMTUSizedChunks_def assms)
qed

text \<open>
  C5. In every reachable state (the MTU is the constructor's 1200 there), for every input,
  \<^verbatim>\<open>partitionDataMTUSizedChunks\<close> returns; the chunks concatenate to the input; every chunk
  has at most 1200 elements and every chunk but the last exactly 1200; the empty input gives
  no chunk; and the result is the same in every reachable state, whatever the counters. The
  function has no state to return: it changes none.
\<close>

theorem partitionDataMTUSizedChunks_chunks:
  assumes "reachable st"
  shows "\<exists>chunks. partitionDataMTUSizedChunks st data = Some chunks \<and>
           concat chunks = data \<and>
           (\<forall>c \<in> set chunks. length c \<le> 1200) \<and>
           (\<forall>c \<in> set (butlast chunks). length c = 1200) \<and>
           (data = [] \<longrightarrow> chunks = []) \<and>
           (\<forall>st'. reachable st' \<longrightarrow> partitionDataMTUSizedChunks st' data = Some chunks)"
proof -
  from partitionDataMTUSizedChunks_1200 [OF reachable_mtu [OF assms], of data]
  obtain chunks where
    c: "partitionDataMTUSizedChunks st data = Some chunks" and
    p: "concat chunks = data" "\<forall>c \<in> set chunks. length c \<le> 1200"
       "\<forall>c \<in> set (butlast chunks). length c = 1200" "data = [] \<longrightarrow> chunks = []"
    by blast
  have "partitionDataMTUSizedChunks st' data = Some chunks" if "reachable st'" for st'
    using c reachable_mtu [OF that] reachable_mtu [OF assms]
    by (simp add: partitionDataMTUSizedChunks_def)
  with c p show ?thesis by blast
qed

theorem partitionDataMTUSizedChunks_chunks_witness:
  "reachable (constructor 101 False) \<and>
   (\<exists>chunks. partitionDataMTUSizedChunks (constructor 101 False) (replicate 2500 (7 :: byte))
              = Some chunks \<and>
           concat chunks = replicate 2500 7 \<and>
           (\<forall>c \<in> set chunks. length c \<le> 1200) \<and>
           (\<forall>c \<in> set (butlast chunks). length c = 1200) \<and>
           (replicate 2500 (7 :: byte) = [] \<longrightarrow> chunks = []) \<and>
           (\<forall>st'. reachable st' \<longrightarrow>
              partitionDataMTUSizedChunks st' (replicate 2500 (7 :: byte)) = Some chunks))"
  by (rule conjI [OF r_constructor partitionDataMTUSizedChunks_chunks [OF r_constructor]])

text \<open>A run of the loop: 2500 bytes give chunks of 1200, 1200 and 100.\<close>

lemma partitionDataMTUSizedChunks_2500:
  "partitionDataMTUSizedChunks (constructor 101 False) (replicate 2500 x)
     = Some [replicate 1200 x, replicate 1200 x, replicate 100 x]"
  by (simp add: partitionDataMTUSizedChunks_def constructor_def partition_loop.simps js_slice_def Let_def)

section \<open>The header extension\<close>

text \<open>
  C7. \<^verbatim>\<open>createHeaderExtension\<close> returns the 8 bytes \<open>BE DE 00 01 51 00 00 00\<close>: the magic,
  the big-endian count 1, and one element whose first byte carries the id 5 in its top four
  bits and the length 2 minus 1 in its low four bits, followed by three zero bytes.
\<close>

theorem createHeaderExtension_bytes:
  "createHeaderExtension = Inr [0xBE, 0xDE, 0x00, 0x01, 0x51, 0x00, 0x00, 0x00] \<and>
   (0x51 :: byte) = push_bit 4 5 OR (2 - 1) \<and>
   drop_bit 4 (0x51 :: byte) = 5 \<and> take_bit 4 (0x51 :: byte) = 1"
  by code_simp

section \<open>The sender report\<close>





text \<open>
  The report is returned when ssrc, timestamp, counter and byte total are unsigned 32-bit
  values, nonce and key have their lengths, and the wall clock was never sampled or lies
  within \<open>2^32\<close> milliseconds after the 1900 epoch.
\<close>

lemma makeRtcpSenderReport_returns:
  assumes ssrc: "0 \<le> ssrc" "ssrc < 2 ^ 32"
      and ts: "0 \<le> timestamp st" "timestamp st < 2 ^ 32"
      and sq: "0 \<le> sequence st" "sequence st < 2 ^ 32"
      and tb: "0 \<le> totalBytes st" "totalBytes st < 2 ^ 32"
      and clock: "case lastPacketTime st of None \<Rightarrow> True
                  | Some t \<Rightarrow> 0 \<le> t - ntpEpoch \<and> t - ntpEpoch < 2 ^ 32"
      and nonce: "length (nonceBuffer udp) = 24" and key: "length (secretkey udp) = 32"
  shows "\<exists>buf. makeRtcpSenderReport box udp st ssrc = Inr buf"
proof -
  let ?h = "((((Buffer_allocUnsafe 8)[0 := 0x80])[1 := 0xc8])[2 := 0x00])[3 := 0x06]"
  let ?msw = "map_option (\<lambda>x. \<lfloor>x\<rfloor>)
                (map_option (\<lambda>t. rat_of_int t - rat_of_int ntpEpoch) (lastPacketTime st))"
  let ?lsw = "map_option (\<lambda>x. Math_round ((x - rat_of_int \<lfloor>x\<rfloor>) * rat_of_int max_int32bit))
                (map_option (\<lambda>t. rat_of_int t - rat_of_int ntpEpoch) (lastPacketTime st))"
  have m: "case ?msw of None \<Rightarrow> True | Some n \<Rightarrow> 0 \<le> n \<and> n < 2 ^ 32"
    using clock by (cases "lastPacketTime st") simp_all
  have l: "case ?lsw of None \<Rightarrow> True | Some n \<Rightarrow> 0 \<le> n \<and> n < 2 ^ 32"
    by (cases "lastPacketTime st") (simp_all add: Math_round_0)
  obtain h where h: "writeUInt32BE ?h (Some ssrc) 4 = Inr h"
    using writeUInt32BE_ok [of "Some ssrc" 4 ?h] ssrc by (auto simp: Buffer_allocUnsafe_def)
  obtain s1 where s1: "writeUInt32BE (Buffer_allocUnsafe 20) ?msw 0 = Inr s1" "length s1 = 20"
    using writeUInt32BE_ok [OF m, of 0 "Buffer_allocUnsafe 20"] by (auto simp: Buffer_allocUnsafe_def)
  obtain s2 where s2: "writeUInt32BE s1 ?lsw 4 = Inr s2" "length s2 = 20"
    using writeUInt32BE_ok [OF l, of 4 s1] s1 by auto
  obtain s3 where s3: "writeUInt32BE s2 (Some (timestamp st)) 8 = Inr s3" "length s3 = 20"
    using writeUInt32BE_ok [of "Some (timestamp st)" 8 s2] s2 ts by auto
  obtain s4 where s4: "writeUInt32BE s3 (Some (sequence st)) 12 = Inr s4" "length s4 = 20"
    using writeUInt32BE_ok [of "Some (sequence st)" 12 s3] s3 sq by auto
  obtain s5 where s5: "writeUInt32BE s4 (Some (totalBytes st)) 16 = Inr s5" "length s5 = 20"
    using writeUInt32BE_ok [of "Some (totalBytes st)" 16 s4] s4 tb by auto
  show ?thesis
    unfolding makeRtcpSenderReport_def Let_def h s1(1) s2(1) s3(1) s4(1) s5(1) sum.case
      crypto_secretbox_easy_def nonce key
    by simp
qed

text \<open>
  Once the wall clock is \<open>2^32\<close> milliseconds or more past the 1900 epoch (any clock from
  19 February 1900 on), the integer part of the NTP timestamp does not fit the 32-bit writer
  and the report raises, for every ssrc and every other field.
\<close>

lemma makeRtcpSenderReport_raises:
  assumes t: "lastPacketTime st = Some t" and big: "2 ^ 32 \<le> t - ntpEpoch"
  shows "makeRtcpSenderReport box udp st ssrc = Inl ERR_OUT_OF_RANGE"
proof -
  let ?h = "((((Buffer_allocUnsafe 8)[0 := 0x80])[1 := 0xc8])[2 := 0x00])[3 := 0x06]"
  have msw: "writeUInt32BE (Buffer_allocUnsafe 20) (Some (t - ntpEpoch)) 0 = Inl ERR_OUT_OF_RANGE"
    by (rule writeUInt32BE_too_big [OF big])
  show ?thesis
  proof (cases "writeUInt32BE ?h (Some ssrc) 4")
    case (Inl e)
    then show ?thesis
      using writeUInt32BE_error [OF Inl] by (simp add: makeRtcpSenderReport_def)
  next
    case (Inr h)
    then show ?thesis
      by (simp add: makeRtcpSenderReport_def Let_def t msw)
  qed
qed

text \<open>
  For a sampled clock the integer word is the millisecond difference itself and the fraction
  word is 0.
\<close>

lemma ntp_words_of_clock:
  "map_option (\<lambda>x. \<lfloor>x\<rfloor>) (map_option (\<lambda>t. rat_of_int t - rat_of_int ntpEpoch) (Some t))
     = Some (t - ntpEpoch)"
  "map_option (\<lambda>x. Math_round ((x - rat_of_int \<lfloor>x\<rfloor>) * rat_of_int max_int32bit))
     (map_option (\<lambda>t. rat_of_int t - rat_of_int ntpEpoch) (Some t)) = Some 0"
  by (simp_all add: Math_round_0)

text \<open>
  C6. The timestamp is the last-send wall clock minus the 1900 epoch, and integer part and
  fraction are computed apart; but the difference is taken in milliseconds and written as it
  is. At the wall clock 1700000000000 (14 November 2023) the integer part is 3908988800000,
  which is \<open>2^32\<close> or more: the 32-bit writer raises and no timestamp is encoded.
\<close>

theorem makeRtcpSenderReport_ntp_raises:
  "makeRtcpSenderReport box udp (sendFrame (constructor 101 False) 1700000000000) 12345
     = Inl ERR_OUT_OF_RANGE \<and>
   \<lfloor>rat_of_int 1700000000000 - rat_of_int ntpEpoch\<rfloor> = 3908988800000 \<and>
   (2 :: int) ^ 32 \<le> 3908988800000"
  by code_simp

section \<open>The report schedule\<close>

lemma onFrameSent_quiet:
  assumes "\<not> report_due st"
  shows "onFrameSent box udp st bytesSent ssrc
           = (Inr [], st\<lparr>totalBytes := js_rem (totalBytes st + bytesSent) max_int32bit\<rparr>)"
  using assms
  by (simp add: report_due_def onFrameSent_def Let_def max_int32bit_def split: if_splits)

lemma onFrameSent_due:
  assumes "report_due st"
  shows "onFrameSent box udp st bytesSent ssrc
           = (case makeRtcpSenderReport box udp
                     (st\<lparr>totalBytes := js_rem (totalBytes st + bytesSent) max_int32bit\<rparr>) ssrc of
                Inl e \<Rightarrow> (Inl e, st\<lparr>totalBytes := js_rem (totalBytes st + bytesSent) max_int32bit\<rparr>)
              | Inr senderReport \<Rightarrow>
                  (Inr [senderReport],
                   st\<lparr>totalBytes := js_rem (totalBytes st + bytesSent) max_int32bit,
                      prevTotalPackets := sequence st\<rparr>))"
  using assms
  by (simp add: report_due_def onFrameSent_def Let_def max_int32bit_def split: if_splits sum.splits)

text \<open>
  Where building the report succeeds, the rule of the specification decides: the report is
  sent iff it is due, and the last reported packet count becomes the raw sequence then.
\<close>

lemma onFrameSent_schedule:
  assumes "makeRtcpSenderReport box udp
             (st\<lparr>totalBytes := js_rem (totalBytes st + bytesSent) max_int32bit\<rparr>) ssrc = Inr report"
  shows "fst (onFrameSent box udp st bytesSent ssrc) = Inr (if report_due st then [report] else [])"
    and "prevTotalPackets (snd (onFrameSent box udp st bytesSent ssrc))
           = (if report_due st then sequence st else prevTotalPackets st)"
  using assms by (cases "report_due st"; simp add: onFrameSent_quiet onFrameSent_due)+

text \<open>
  When \<^verbatim>\<open>onFrameSent\<close> follows every packet, the last reported packet count is the last
  multiple of 128 at or below the counter. From such a state the next packet makes a report
  due iff the new counter is a multiple of 128, the wrap to 0 included.
\<close>

lemma succ_div_128:
  fixes s :: int
  shows "(s + 1) div 128 = (if s mod 128 = 127 then s div 128 + 1 else s div 128)"
    and "((s + 1) mod 128 = 0) = (s mod 128 = 127)"
proof -
  define q where "q = s div 128"
  define r where "r = s mod 128"
  have s: "s = 128 * q + r" and r: "0 \<le> r" "r < 128"
    by (simp_all add: q_def r_def)
  have e: "s + 1 = 128 * q + (r + 1)" using s by simp
  have d: "(s + 1) div 128 = q + (r + 1) div 128" unfolding e by simp
  have m: "(s + 1) mod 128 = (r + 1) mod 128" unfolding e by simp
  show "(s + 1) div 128 = (if s mod 128 = 127 then s div 128 + 1 else s div 128)"
    unfolding d q_def [symmetric] r_def [symmetric] using r by (cases "r = 127") simp_all
  show "((s + 1) mod 128 = 0) = (s mod 128 = 127)"
    unfolding m r_def [symmetric] using r by (cases "r = 127") simp_all
qed

lemma report_due_every_128:
  assumes inv: "prevTotalPackets st = 128 * (sequence st div 128)"
      and rng: "0 \<le> sequence st" "sequence st < 2 ^ 32"
  shows "report_due (snd (getNewSequence st)) \<longleftrightarrow> sequence (snd (getNewSequence st)) mod 128 = 0"
proof (cases "sequence st + 1 < 2 ^ 32")
  case True
  then have s': "sequence (snd (getNewSequence st)) = sequence st + 1"
    using rng by (simp add: getNewSequence_def Let_def js_rem_nonneg max_int32bit_def)
  have p: "prevTotalPackets (snd (getNewSequence st)) = 128 * (sequence st div 128)"
    using inv by (simp add: getNewSequence_def Let_def)
  have le: "\<not> sequence st + 1 < 128 * (sequence st div 128)"
  proof -
    have "128 * (sequence st div 128) \<le> sequence st" by simp
    then show ?thesis by linarith
  qed
  have "report_due (snd (getNewSequence st))
      \<longleftrightarrow> 0 < (sequence st + 1) div 128 - sequence st div 128"
    unfolding report_due_def Let_def s' p using le by simp
  also have "\<dots> \<longleftrightarrow> sequence st mod 128 = 127"
    by (simp add: succ_div_128(1))
  also have "\<dots> \<longleftrightarrow> (sequence st + 1) mod 128 = 0"
    by (simp only: succ_div_128(2))
  finally show ?thesis unfolding s' .
next
  case False
  then have s: "sequence st = 2 ^ 32 - 1" using rng by simp
  have s': "sequence (snd (getNewSequence st)) = 0"
    by (simp add: getNewSequence_def Let_def js_rem_def max_int32bit_def s)
  have p: "prevTotalPackets (snd (getNewSequence st)) = 2 ^ 32 - 128"
    using inv by (simp add: getNewSequence_def Let_def s)
  show ?thesis
    unfolding report_due_def Let_def s' p by simp
qed

lemma schedule_step:
  assumes inv: "prevTotalPackets st = 128 * (sequence st div 128)"
      and rng: "0 \<le> sequence st" "sequence st < 2 ^ 32"
      and ok: "onFrameSent box udp (snd (getNewSequence st)) bytesSent ssrc = (Inr sent, st')"
  shows "(sent \<noteq> [] \<longleftrightarrow> sequence st' mod 128 = 0) \<and> length sent \<le> 1 \<and>
         sequence st' = js_rem (sequence st + 1) max_int32bit \<and>
         prevTotalPackets st' = 128 * (sequence st' div 128)"
proof -
  let ?st1 = "snd (getNewSequence st)"
  have due: "report_due ?st1 \<longleftrightarrow> sequence ?st1 mod 128 = 0"
    by (rule report_due_every_128 [OF inv rng])
  have s1: "sequence ?st1 = js_rem (sequence st + 1) max_int32bit"
    and p1: "prevTotalPackets ?st1 = prevTotalPackets st"
    by (simp_all add: getNewSequence_def Let_def)
  show ?thesis
  proof (cases "report_due ?st1")
    case True
    with ok obtain r where "sent = [r]"
      and "st' = ?st1\<lparr>totalBytes := js_rem (totalBytes ?st1 + bytesSent) max_int32bit,
                      prevTotalPackets := sequence ?st1\<rparr>"
      by (auto simp: onFrameSent_due split: sum.splits)
    moreover have "128 * (sequence ?st1 div 128) = sequence ?st1"
      using True due by (simp add: mod_eq_0_iff_dvd)
    ultimately show ?thesis using True due s1 by simp
  next
    case False
    with ok have sent: "sent = []"
      and st': "st' = ?st1\<lparr>totalBytes := js_rem (totalBytes ?st1 + bytesSent) max_int32bit\<rparr>"
      by (simp_all add: onFrameSent_quiet)
    have nz: "sequence ?st1 mod 128 \<noteq> 0" using False due by simp
    have lt: "sequence st + 1 < 2 ^ 32"
    proof (rule ccontr)
      assume "\<not> sequence st + 1 < 2 ^ 32"
      then have "sequence st = 2 ^ 32 - 1" using rng by simp
      then have "sequence ?st1 = 0" by (simp add: s1 js_rem_def max_int32bit_def)
      with nz show False by simp
    qed
    then have e: "sequence ?st1 = sequence st + 1"
      using rng by (simp add: s1 js_rem_nonneg max_int32bit_def)
    have "sequence st mod 128 \<noteq> 127" using nz unfolding e by (simp only: succ_div_128(2)) simp
    then have "(sequence st + 1) div 128 = sequence st div 128"
      by (simp add: succ_div_128(1))
    then show ?thesis using sent st' nz inv p1 e s1 by simp
  qed
qed

lemma boundaries_Suc:
  "boundaries s (Suc n) = (if (s + 1) mod 128 = 0 then 1 else 0) + boundaries (s + 1) n"
proof -
  have u: "[1..<Suc (Suc n)] = 1 # map Suc [1..<Suc n]"
    by (simp add: upt_conv_Cons map_Suc_upt del: upt_Suc)
  have "length (filter (\<lambda>k. (s + int k) mod 128 = 0) (map Suc [1..<Suc n]))
      = length (filter (\<lambda>k. (s + 1 + int k) mod 128 = 0) [1..<Suc n])"
    by (simp add: filter_map comp_def add.assoc del: upt_Suc)
  then show ?thesis
    unfolding boundaries_def u by (simp del: upt_Suc)
qed

lemma boundaries_mod: "boundaries (s mod 2 ^ 32) n = boundaries s n"
proof -
  have "(s mod 2 ^ 32 + int k) mod 128 = (s + int k) mod 128" for k
  proof -
    have "(s mod 2 ^ 32 + int k) mod 128 = (s mod 2 ^ 32 mod 128 + int k) mod 128"
      by (simp add: mod_simps)
    also have "s mod 2 ^ 32 mod 128 = s mod 128"
      by (rule mod_mod_cancel) simp
    finally show ?thesis by (simp add: mod_simps)
  qed
  then show ?thesis by (simp add: boundaries_def)
qed

text \<open>
  A run that returns sends one report for each 128-packet boundary it crosses, whether or not
  the counter wraps on the way; in the run of the raw counts \<open>2^32 - 10 .. 2^32 + 20\<close> there
  is one boundary.
\<close>

lemma simulate_counts:
  assumes "simulate box udp ssrc n st = (Inr sent, st')"
      and "prevTotalPackets st = 128 * (sequence st div 128)"
      and "0 \<le> sequence st" "sequence st < 2 ^ 32"
  shows "length sent = boundaries (sequence st) n \<and>
         sequence st' = (sequence st + int n) mod 2 ^ 32 \<and>
         prevTotalPackets st' = 128 * (sequence st' div 128)"
  using assms
proof (induction n arbitrary: st sent)
  case 0
  then show ?case by (simp add: boundaries_def)
next
  case (Suc n)
  from Suc.prems(1) obtain a st1 b where
    a: "onFrameSent box udp (snd (getNewSequence st)) 0 ssrc = (Inr a, st1)" and
    b: "simulate box udp ssrc n st1 = (Inr b, st')" and
    sent: "sent = a @ b"
    by (auto split: prod.splits sum.splits)
  from schedule_step [OF Suc.prems(2,3,4) a] have
    fire: "a \<noteq> [] \<longleftrightarrow> sequence st1 mod 128 = 0" and la: "length a \<le> 1" and
    s1: "sequence st1 = js_rem (sequence st + 1) max_int32bit" and
    inv1: "prevTotalPackets st1 = 128 * (sequence st1 div 128)"
    by simp_all
  have s1': "sequence st1 = (sequence st + 1) mod 2 ^ 32"
    using Suc.prems(3) by (simp add: s1 js_rem_nonneg max_int32bit_def)
  then have rng1: "0 \<le> sequence st1" "sequence st1 < 2 ^ 32" by simp_all
  from Suc.IH [OF b inv1 rng1] have
    lb: "length b = boundaries (sequence st1) n" and
    sn: "sequence st' = (sequence st1 + int n) mod 2 ^ 32" and
    invn: "prevTotalPackets st' = 128 * (sequence st' div 128)"
    by simp_all
  have "sequence st1 mod 128 = (sequence st + 1) mod 128"
    unfolding s1' by (rule mod_mod_cancel) simp
  then have "length a = (if (sequence st + 1) mod 128 = 0 then 1 else 0)"
    using fire la by (cases a) auto
  moreover have "boundaries (sequence st1) n = boundaries (sequence st + 1) n"
    unfolding s1' by (rule boundaries_mod)
  ultimately have 1: "length sent = boundaries (sequence st) (Suc n)"
    using lb sent by (simp add: boundaries_Suc)
  have 2: "sequence st' = (sequence st + int (Suc n)) mod 2 ^ 32"
    unfolding sn s1' by (simp add: mod_simps ac_simps)
  from 1 2 invn show ?case by simp
qed

lemma boundaries_wraparound: "boundaries (2 ^ 32 - 11) 31 = 1"
  by code_simp

text \<open>
  The run across the wraparound with the wall clock never sampled: exactly one report goes
  out (at the raw count \<open>2^32\<close>, where the counter wraps to 0).
\<close>

lemma simulate_wraparound_clock_unset:
  "simulate test_box test_udp 12345 31 (wrap_state None)
     = (Inr [[0x80, 0xC8, 0x00, 0x06, 0, 0, 0x30, 0x39] @ replicate 40 0],
        (wrap_state None)\<lparr>sequence := 20, prevTotalPackets := 0\<rparr>)"
  by code_simp

text \<open>
  C2. The rule holds where the report can be built (\<open>onFrameSent_schedule\<close>,
  \<open>simulate_counts\<close>); it fails where building it raises. After a frame sent at the wall clock 1700000000000 and 128 packets, the
  report is due, and \<^verbatim>\<open>onFrameSent\<close> raises: nothing is sent and the last reported packet
  count stays 0, so the report is due again at the next call. The run across the wraparound
  ends with the same error at the boundary, with no report sent.
\<close>

theorem onFrameSent_boundary_raises:
  "report_due (getNewSequence_times 128 (sendFrame (constructor 101 False) 1700000000000)) \<and>
   onFrameSent box udp (getNewSequence_times 128 (sendFrame (constructor 101 False) 1700000000000))
       1000 12345
     = (Inl ERR_OUT_OF_RANGE,
        (getNewSequence_times 128 (sendFrame (constructor 101 False) 1700000000000))
          \<lparr>totalBytes := 1000\<rparr>) \<and>
   report_due (getNewSequence_times 129 (sendFrame (constructor 101 False) 1700000000000)) \<and>
   simulate box udp 12345 31 (wrap_state (Some 1700000000000))
     = (Inl ERR_OUT_OF_RANGE, (wrap_state (Some 1700000000000))\<lparr>sequence := 0\<rparr>)"
  by code_simp

section \<open>Codec names\<close>












text \<open>A supported codec, for comparison: the pipeline is built and run.\<close>

lemma streamLivestreamVideo_h264:
  "streamLivestreamVideo ''libx264 (H.264)'' True
     = (Running, [NewVideoStream, NewVideoOutput H264NalSplitter, FfmpegCommand,
         VideoOutputFormat ''H264'', PipeVideo, AudioOutput, PipeAudio, CommandRun])"
  by code_simp

end
